theory Spec2Isabelle
  imports Complex_Main "HOL-Library.Multiset"
begin

section \<open>Tables\<close>

text \<open>
  The dashboard of \<^verbatim>\<open>visualization/app.py\<close> reads two CSV files into pandas tables and
  works on them by filtering, sorting and re-indexing. A table is modelled as the list of
  its rows, in row order. Both tables have the columns \<^verbatim>\<open>year\<close> and \<^verbatim>\<open>round\<close>; they are
  the common part of the two row records, so that \<^verbatim>\<open>filter_year\<close> applies to both, as in
  the source. The column \<^verbatim>\<open>round\<close> is the field \<open>round_num\<close> (\<open>round\<close> is the rounding
  function of HOL).
\<close>

record season_row =
  year :: int
  round_num :: int

record circuit_row = season_row +
  name :: string
  country :: string
  lat :: rat
  lng :: rat

text \<open>
  A row of the drivers table. The column \<^verbatim>\<open>name\<close> of a drivers table is not read from the
  file: \<^verbatim>\<open>show_driver_progression\<close> and \<^verbatim>\<open>show_driver_points\<close> assign it. It is the field
  \<open>driver_name\<close>, \<open>None\<close> in a row of a table that does not have the column. Points are
  compared and never added, so any linearly ordered numbers model them; rationals cover
  the half points some races award.
\<close>

record driver_row = season_row +
  code :: string
  forename :: string
  surname :: string
  number :: int
  points :: rat
  position :: int
  driver_name :: "string option"

text \<open>
  A table after \<^verbatim>\<open>set_index("position")\<close>: every row with its index label, in row order.
\<close>

type_synonym rankings = "(int \<times> driver_row) list"

text \<open>
  \<open>IndexError\<close> is what Python raises when position 0 of an empty array is read, and
  \<open>StreamlitAPIException\<close> what the select box raises for an index outside its options.
  The other errors are the taxonomy of the specification; no function of the source
  constructs them.
\<close>

datatype error =
    IndexError
  | StreamlitAPIException
  | DataUnavailable
  | EmptyInput
  | NotFound
  | EmptyRankings

section \<open>The library's sort\<close>

text \<open>
  \<^verbatim>\<open>DataFrame.sort_values(by=..., ascending=...)\<close> is library code, and the source calls it
  with the default algorithm (\<^verbatim>\<open>kind="quicksort"\<close>), for which the library promises an
  ordered rearrangement of the rows and nothing about rows with equal keys. The routine is
  therefore a parameter of every function that sorts, and \<open>sort_values_ok\<close> is what the
  library promises of it. The key is the sorted column as a function of the row.
\<close>

type_synonym 'r sort_values = "('r \<Rightarrow> rat) \<Rightarrow> bool \<Rightarrow> 'r list \<Rightarrow> 'r list"

definition sort_values_ok :: "'r sort_values \<Rightarrow> bool" where
  "sort_values_ok sv \<longleftrightarrow>
     (\<forall>key asc df.
        mset (sv key asc df) = mset df \<and>
        sorted_wrt (\<lambda>a b. if asc then key a \<le> key b else key b \<le> key a) (sv key asc df))"

text \<open>
  A routine that meets the library's promise, to run the functions on concrete tables.
\<close>

definition stable_sort_values :: "'r sort_values" where
  "stable_sort_values key asc df =
     (if asc then sort_key key df else sort_key (\<lambda>r. - key r) df)"

section \<open>Helper functions\<close>

text \<open>\<^verbatim>\<open>data[data["year"] == year]\<close>: a new table with the rows of that year.\<close>

definition filter_year :: "'a season_row_scheme list \<Rightarrow> int \<Rightarrow> 'a season_row_scheme list" where
  "filter_year data y = filter (\<lambda>r. year r = y) data"

text \<open>
  \<^verbatim>\<open>Series.max()\<close>: the largest value of a column, and NaN, here \<open>None\<close>, for an empty
  column. A comparison of a value with NaN is false.
\<close>

definition series_max :: "int list \<Rightarrow> int option" where
  "series_max col = (case col of [] \<Rightarrow> None | v # rest \<Rightarrow> Some (fold max rest v))"

text \<open>
  \<^verbatim>\<open>set_index("position")\<close>: the column becomes the index label of each row. (The library
  also removes it from the columns; no function reads it afterwards.)
\<close>

definition set_index_position :: "driver_row list \<Rightarrow> rankings" where
  "set_index_position df = map (\<lambda>r. (position r, r)) df"

definition get_season_rankings :: "driver_row sort_values \<Rightarrow> driver_row list \<Rightarrow> rankings" where
  "get_season_rankings sv drivers =
     set_index_position
       (sv points False
          (filter (\<lambda>r. Some (round_num r) = series_max (map round_num drivers)) drivers))"

text \<open>
  \<^verbatim>\<open>circuits[circuits["name"] == selection]["round"].values[0]\<close> reads position 0 of the
  rounds of the matching circuits, which raises \<open>IndexError\<close> when there is none.
\<close>

definition get_circuit_rankings ::
  "driver_row sort_values \<Rightarrow> driver_row list \<Rightarrow> circuit_row list \<Rightarrow> string \<Rightarrow> error + rankings" where
  "get_circuit_rankings sv drivers circuits selection =
     (case map round_num (filter (\<lambda>c. name c = selection) circuits) of
        [] \<Rightarrow> Inl IndexError
      | rnd_num # _ \<Rightarrow>
          Inr (set_index_position
                 (sv points False (filter (\<lambda>r. round_num r = rnd_num) drivers))))"

section \<open>Text of numbers\<close>

text \<open>Python's \<^verbatim>\<open>str\<close> of an integer: decimal digits, with a minus sign when negative.\<close>

definition digit_char :: "nat \<Rightarrow> char" where
  "digit_char d = ''0123456789'' ! d"

fun str_nat :: "nat \<Rightarrow> string" where
  "str_nat n = (if n < 10 then [digit_char n] else str_nat (n div 10) @ [digit_char (n mod 10)])"

declare str_nat.simps [simp del]

definition str_int :: "int \<Rightarrow> string" where
  "str_int i = (if i < 0 then CHR ''-'' # str_nat (nat (- i)) else str_nat (nat i))"

section \<open>The winner banner\<close>

text \<open>
  \<^verbatim>\<open>rankings.head(1)\<close> is the first row, or no row of an empty table; reading
  \<^verbatim>\<open>.values[0]\<close> of a column of it raises \<open>IndexError\<close> when there is no row. The result is
  the text handed to \<^verbatim>\<open>st.markdown\<close>.
\<close>

definition winner_name :: "driver_row \<Rightarrow> string" where
  "winner_name w = forename w @ '' '' @ surname w"

definition winner_number :: "driver_row \<Rightarrow> string" where
  "winner_number w = ''['' @ str_int (number w) @ '']''"

definition winner_text :: "string \<Rightarrow> string \<Rightarrow> string" where
  \<open>winner_text nm num =
     ''\<newline>    <span style="font-size: 24px;;">Winner:</span>\<newline>    <span style="font-size: 40px; color: red;">''
     @ nm @
     ''</span>\<newline>    <span style="font-size: 40px; color: red;">''
     @ num @
     ''</span>\<newline>    ''\<close>

definition show_winner_text :: "rankings \<Rightarrow> error + string" where
  "show_winner_text rankings =
     (case take 1 rankings of
        [] \<Rightarrow> Inl IndexError
      | (_, w) # _ \<Rightarrow> Inr (winner_text (winner_name w) (winner_number w)))"

section \<open>Chart builders\<close>

text \<open>
  A chart is the description handed to the rendering engine: the marks the charting
  library makes from the rows of the table it is given. The layout settings of the source
  (margins, colours, axis titles, sizes) are constants that no value of a table reaches,
  and are left out.
\<close>

text \<open>The values of a list in order of first occurrence.\<close>

fun unique :: "'a list \<Rightarrow> 'a list" where
  "unique [] = []"
| "unique (x # xs) = x # unique (removeAll x xs)"

subsection \<open>World map\<close>

text \<open>
  \<^verbatim>\<open>px.scatter_geo(..., color="country", text="round")\<close> draws one trace for each country
  of the table, in order of first occurrence, with one marker for each circuit of that
  country, in the row order of the table.
\<close>

record geo_trace =
  geo_country :: string
  geo_lat :: "rat list"
  geo_lon :: "rat list"
  geo_hover_name :: "string list"
  geo_text :: "int list"

definition geo_of :: "circuit_row list \<Rightarrow> string \<Rightarrow> geo_trace" where
  "geo_of circuits c =
     (let g = filter (\<lambda>r. country r = c) circuits
      in \<lparr>geo_country = c, geo_lat = map lat g, geo_lon = map lng g,
          geo_hover_name = map name g, geo_text = map round_num g\<rparr>)"

definition show_world_map :: "circuit_row list \<Rightarrow> geo_trace list" where
  "show_world_map circuits = map (geo_of circuits) (unique (map country circuits))"

subsection \<open>Races of the season\<close>

text \<open>
  \<^verbatim>\<open>show_races\<close> sorts a new table by round (the table it is given stays as it is) and
  shows name and country, indexed by round.
\<close>

definition show_races :: "circuit_row sort_values \<Rightarrow> circuit_row list \<Rightarrow> (int \<times> string \<times> string) list" where
  "show_races sv circuits =
     map (\<lambda>c. (round_num c, name c, country c)) (sv (\<lambda>c. of_int (round_num c)) True circuits)"

subsection \<open>Driver progression\<close>

text \<open>
  \<^verbatim>\<open>px.line(..., color="code", category_orders={"code": rankings})\<close> draws one trace for each
  code of the table. The traces follow the given order, and codes that the order does not
  list come after it, in order of first occurrence. A trace holds the rows of its code in
  the row order of the table.
\<close>

record line_trace =
  trace_code :: string
  trace_x :: "int list"
  trace_y :: "rat list"
  trace_hover :: "string option list"

definition legend_codes :: "string list \<Rightarrow> driver_row list \<Rightarrow> string list" where
  "legend_codes order df =
     filter (\<lambda>c. c \<in> set (map code df)) (unique (order @ map code df))"

definition line_of :: "driver_row list \<Rightarrow> string \<Rightarrow> line_trace" where
  "line_of df c =
     (let g = filter (\<lambda>r. code r = c) df
      in \<lparr>trace_code = c, trace_x = map round_num g, trace_y = map points g,
          trace_hover = map driver_name g\<rparr>)"

definition px_line :: "driver_row list \<Rightarrow> string list \<Rightarrow> line_trace list" where
  "px_line df order = map (line_of df) (legend_codes order df)"

text \<open>
  \<^verbatim>\<open>show_driver_progression\<close> sorts the table it is given in place
  (\<^verbatim>\<open>inplace=True\<close>) and assigns its column \<^verbatim>\<open>name\<close>, then builds the chart from it. The
  result is the chart and the table as the call leaves it.
\<close>

definition show_driver_progression ::
  "driver_row sort_values \<Rightarrow> driver_row list \<Rightarrow> string list \<Rightarrow> line_trace list \<times> driver_row list" where
  "show_driver_progression sv drivers rankings =
     (let drivers1 = sv (\<lambda>r. of_int (round_num r)) True drivers;
          drivers2 = map (\<lambda>r. r\<lparr>driver_name := Some (forename r @ '' '' @ surname r)\<rparr>) drivers1
      in (px_line drivers2 rankings, drivers2))"

text \<open>
  The reading of the specification in which the chart shows a running sum: the y values of
  a driver's line are the sums of the driver's points up to each round.
\<close>

fun running_sum :: "rat \<Rightarrow> rat list \<Rightarrow> rat list" where
  "running_sum acc [] = []"
| "running_sum acc (p # ps) = (acc + p) # running_sum (acc + p) ps"

definition cumulative_points :: "driver_row sort_values \<Rightarrow> driver_row list \<Rightarrow> string \<Rightarrow> rat list" where
  "cumulative_points sv drivers c =
     running_sum 0
       (map points (filter (\<lambda>r. code r = c) (sv (\<lambda>r. of_int (round_num r)) True drivers)))"

subsection \<open>Driver points\<close>

text \<open>
  \<^verbatim>\<open>px.bar(..., x="points", y="code", color="code", text="name")\<close> draws one trace for
  each code of the table, in order of first occurrence. A trace holds one bar for each row
  of its code, in the row order of the table: the length of the bar is the points, its
  place on the axis the code, and its text the name. The source leaves the position of the
  text to the rendering engine (the line that sets it is commented out).
\<close>

record bar_trace =
  bar_code :: string
  bar_x :: "rat list"
  bar_y :: "string list"
  bar_hover :: "string option list"
  bar_text :: "string option list"

record annotation =
  ann_x :: rat
  ann_y :: string
  ann_text :: "string option"
  ann_showarrow :: bool
  ann_xanchor :: string

record bar_chart =
  bars :: "bar_trace list"
  annotations :: "annotation list"

definition bar_of :: "rankings \<Rightarrow> string \<Rightarrow> bar_trace" where
  "bar_of df c =
     (let g = filter (\<lambda>(i, r). code r = c) df
      in \<lparr>bar_code = c, bar_x = map (\<lambda>(i, r). points r) g, bar_y = map (\<lambda>(i, r). code r) g,
          bar_hover = map (\<lambda>(i, r). driver_name r) g,
          bar_text = map (\<lambda>(i, r). driver_name r) g\<rparr>)"

definition px_bar :: "rankings \<Rightarrow> bar_chart" where
  "px_bar df =
     \<lparr>bars = map (bar_of df) (unique (map (\<lambda>(i, r). code r) df)), annotations = []\<rparr>"


text \<open>
  \<^verbatim>\<open>show_driver_points\<close> assigns the column \<^verbatim>\<open>name\<close> of the table it is given, from the
  index label and the driver's names, and builds the bar chart from the table. The loop
  over the rows then adds an annotation at x = 0 for each row without points, whose bar has
  no length. The result is the chart and the table as the call leaves it.
\<close>

definition add_annotation :: "bar_chart \<Rightarrow> annotation \<Rightarrow> bar_chart" where
  "add_annotation fig a = fig\<lparr>annotations := annotations fig @ [a]\<rparr>"

definition annotate_row :: "int \<times> driver_row \<Rightarrow> bar_chart \<Rightarrow> bar_chart" where
  "annotate_row ir fig =
     (case ir of (i, row) \<Rightarrow>
        if points row = 0
        then add_annotation fig
               \<lparr>ann_x = 0, ann_y = code row, ann_text = driver_name row,
                ann_showarrow = False, ann_xanchor = ''left''\<rparr>
        else fig)"

definition show_driver_points :: "rankings \<Rightarrow> bar_chart \<times> rankings" where
  "show_driver_points rankings =
     (let rankings1 =
            map (\<lambda>(i, r). (i, r\<lparr>driver_name :=
                                   Some (str_int i @ ''. '' @ forename r @ '' '' @ surname r)\<rparr>))
              rankings
      in (fold annotate_row rankings1 (px_bar rankings1), rankings1))"

section \<open>The page\<close>

definition START_YEAR :: int where
  "START_YEAR = 1950"

definition END_YEAR :: int where
  "END_YEAR = 2023"

text \<open>\<^verbatim>\<open>list(reversed(range(START_YEAR, END_YEAR + 1)))\<close>, the options of the select box.\<close>

definition year_options :: "int list" where
  "year_options = rev [START_YEAR..END_YEAR]"

text \<open>
  A select box shows the option at \<^verbatim>\<open>index\<close> until the user picks another one, and
  refuses an index that is not a position of its options.
\<close>

definition selectbox_initial :: "'a list \<Rightarrow> nat \<Rightarrow> error + 'a" where
  "selectbox_initial options i =
     (if i < length options then Inr (options ! i) else Inl StreamlitAPIException)"

record page =
  page_title :: string
  page_races :: "(int \<times> string \<times> string) list"
  page_winner :: string
  page_world_map :: "geo_trace list"
  page_progression :: "line_trace list"
  page_points :: bar_chart

text \<open>The tables that the variables of the script hold when it ends.\<close>

record tables =
  loaded_circuits :: "circuit_row list"
  loaded_drivers :: "driver_row list"
  filtered_circuits :: "circuit_row list"
  filtered_drivers :: "driver_row list"
  season_rankings :: rankings

text \<open>
  One run of the script for the loaded tables and the selected year, in the order of the
  source: the filters, the rankings, the table of races, the banner, the map and the two
  charts. The filters make new tables, so the calls that change a table change the
  filtered one. An error ends the run.
\<close>

definition app ::
  "circuit_row sort_values \<Rightarrow> driver_row sort_values \<Rightarrow> circuit_row list \<Rightarrow> driver_row list \<Rightarrow> int
     \<Rightarrow> error + page \<times> tables" where
  "app svc svd circuits drivers selected_year =
     (let fcircuits = filter_year circuits selected_year;
          fdrivers = filter_year drivers selected_year;
          rankings = get_season_rankings svd fdrivers;
          races = show_races svc fcircuits
      in case show_winner_text rankings of
           Inl e \<Rightarrow> Inl e
         | Inr banner \<Rightarrow>
             (let world = show_world_map fcircuits;
                  prog = show_driver_progression svd fdrivers (map (\<lambda>(i, r). code r) rankings);
                  pts = show_driver_points rankings
              in Inr (\<lparr>page_title = ''Formula 1 Season '' @ str_int selected_year,
                        page_races = races, page_winner = banner, page_world_map = world,
                        page_progression = fst prog, page_points = fst pts\<rparr>,
                      \<lparr>loaded_circuits = circuits, loaded_drivers = drivers,
                        filtered_circuits = fcircuits, filtered_drivers = snd prog,
                        season_rankings = snd pts\<rparr>)))"

section \<open>Sample tables\<close>

definition drow :: "int \<Rightarrow> int \<Rightarrow> string \<Rightarrow> string \<Rightarrow> string \<Rightarrow> int \<Rightarrow> rat \<Rightarrow> int \<Rightarrow> driver_row" where
  "drow y r c f s n p k =
     \<lparr>year = y, round_num = r, code = c, forename = f, surname = s, number = n,
      points = p, position = k, driver_name = None\<rparr>"

definition sample_drivers :: "driver_row list" where
  "sample_drivers =
     [drow 2021 22 ''HAM'' ''Lewis'' ''Hamilton'' 44 (775 / 2) 2,
      drow 2021 22 ''VER'' ''Max'' ''Verstappen'' 33 (791 / 2) 1,
      drow 2021 22 ''KUB'' ''Robert'' ''Kubica'' 88 0 20,
      drow 2021 22 ''MAZ'' ''Nikita'' ''Mazepin'' 9 0 21,
      drow 2021 21 ''VER'' ''Max'' ''Verstappen'' 33 (739 / 2) 1,
      drow 2021 21 ''HAM'' ''Lewis'' ''Hamilton'' 44 (739 / 2) 2,
      drow 2020 17 ''HAM'' ''Lewis'' ''Hamilton'' 44 347 1]"

definition sample_circuits :: "circuit_row list" where
  "sample_circuits =
     [\<lparr>year = 2021, round_num = 22, name = ''Abu Dhabi Grand Prix'', country = ''UAE'',
       lat = 2447 / 100, lng = 5460 / 100\<rparr>,
      \<lparr>year = 2021, round_num = 10, name = ''British Grand Prix'', country = ''UK'',
       lat = 5208 / 100, lng = - (102 / 100)\<rparr>,
      \<lparr>year = 2020, round_num = 4, name = ''British Grand Prix'', country = ''UK'',
       lat = 5208 / 100, lng = - (102 / 100)\<rparr>]"

section \<open>Properties\<close>

subsection \<open>The winner banner\<close>

lemma show_winner_text_Nil: "show_winner_text [] = Inl IndexError"
  by (simp add: show_winner_text_def)

lemma show_winner_text_Cons: "show_winner_text ((k, w) # rest) = Inr (winner_text (winner_name w) (winner_number w))"
  by (simp add: show_winner_text_def)

text \<open>
  C1, as the code has it: \<^verbatim>\<open>show_winner_text\<close> fails exactly on the rankings without rows,
  and the error it fails with is the \<open>IndexError\<close> of reading position 0 of an empty
  column.
\<close>

theorem winner_banner_fails_with_IndexError:
  "(show_winner_text rankings = Inl e) = (rankings = [] \<and> e = IndexError)"
proof (cases rankings)
  case Nil
  then show ?thesis by (auto simp: show_winner_text_Nil)
next
  case (Cons kw rest)
  then show ?thesis by (cases kw) (simp add: show_winner_text_Cons)
qed

text \<open>The error on the empty rankings is not the \<open>EmptyRankings\<close> of the specification.\<close>

theorem winner_banner_not_EmptyRankings: "show_winner_text [] \<noteq> Inl EmptyRankings"
  by (simp add: show_winner_text_Nil)

subsection \<open>The sort routines\<close>

lemma stable_sort_values_ok: "sort_values_ok stable_sort_values"
  unfolding sort_values_ok_def
proof (intro allI conjI)
  fix key :: "'a \<Rightarrow> rat" and asc :: bool and df :: "'a list"
  show "mset (stable_sort_values key asc df) = mset df"
    by (simp add: stable_sort_values_def)
  have "sorted (map key (sort_key key df))"
    by (rule sorted_sort_key)
  then have up: "sorted_wrt (\<lambda>a b. key a \<le> key b) (sort_key key df)"
    by (simp only: sorted_map)
  have "sorted (map (\<lambda>r. - key r) (sort_key (\<lambda>r. - key r) df))"
    by (rule sorted_sort_key)
  then have "sorted_wrt (\<lambda>a b. - key a \<le> - key b) (sort_key (\<lambda>r. - key r) df)"
    by (simp only: sorted_map)
  then have down: "sorted_wrt (\<lambda>a b. key b \<le> key a) (sort_key (\<lambda>r. - key r) df)"
    by (simp only: neg_le_iff_le)
  show "sorted_wrt (\<lambda>a b. if asc then key a \<le> key b else key b \<le> key a)
          (stable_sort_values key asc df)"
    using up down by (cases asc) (simp_all add: stable_sort_values_def)
qed

lemma sort_values_mset: "sort_values_ok sv \<Longrightarrow> mset (sv key asc df) = mset df"
  by (simp add: sort_values_ok_def)

lemma sort_values_set:
  assumes "sort_values_ok sv"
  shows "set (sv key asc df) = set df"
proof -
  have "set_mset (mset (sv key asc df)) = set_mset (mset df)"
    by (simp only: sort_values_mset [OF assms])
  then show ?thesis by (simp only: set_mset_mset)
qed

lemma sort_values_Nil: "sort_values_ok sv \<Longrightarrow> sv key asc [] = []"
  using sort_values_mset [of sv key asc "[]"] by simp

lemma sort_values_descending:
  assumes "sort_values_ok sv"
  shows "sorted_wrt (\<lambda>a b. key b \<le> key a) (sv key False df)"
proof -
  have "sorted_wrt (\<lambda>a b. if False then key a \<le> key b else key b \<le> key a) (sv key False df)"
    using assms unfolding sort_values_ok_def by blast
  then show ?thesis by simp
qed

lemma sort_values_ascending:
  assumes "sort_values_ok sv"
  shows "sorted_wrt (\<lambda>a b. key a \<le> key b) (sv key True df)"
proof -
  have "sorted_wrt (\<lambda>a b. if True then key a \<le> key b else key b \<le> key a) (sv key True df)"
    using assms unfolding sort_values_ok_def by blast
  then show ?thesis by simp
qed

subsection \<open>Rankings\<close>

lemma series_max_eq: "col \<noteq> [] \<Longrightarrow> series_max col = Some (Max (set col))"
proof (cases col)
  case Nil
  assume "col \<noteq> []"
  with Nil show ?thesis by simp
next
  case (Cons v rest)
  have "fold max rest v = Max (set (v # rest))"
    by (rule Max.set_eq_fold [symmetric])
  with Cons show ?thesis by (simp add: series_max_def)
qed

lemma map_snd_set_index_position: "map snd (set_index_position df) = df"
  by (simp add: set_index_position_def comp_def)

lemma set_index_position_keys: "(k, r) \<in> set (set_index_position df) \<Longrightarrow> k = position r"
  by (auto simp: set_index_position_def)

lemma last_round_filter:
  assumes "drivers \<noteq> []"
  shows "filter (\<lambda>r. Some (round_num r) = series_max (map round_num drivers)) drivers =
    filter (\<lambda>r. round_num r = Max (round_num ` set drivers)) drivers"
proof -
  have "series_max (map round_num drivers) = Some (Max (set (map round_num drivers)))"
    using assms by (intro series_max_eq) simp
  then show ?thesis by simp
qed

lemma last_round_nonempty:
  assumes "drivers \<noteq> []"
  shows "filter (\<lambda>r. round_num r = Max (round_num ` set drivers)) drivers \<noteq> []"
proof -
  have "finite (round_num ` set drivers)" and "round_num ` set drivers \<noteq> {}"
    using assms by simp_all
  then have "Max (round_num ` set drivers) \<in> round_num ` set drivers"
    by (rule Max_in)
  then obtain r where "r \<in> set drivers" and "round_num r = Max (round_num ` set drivers)"
    by (elim imageE) simp
  then show ?thesis by (simp add: filter_empty_conv) blast
qed

lemma sorted_wrt_hd:
  assumes "sorted_wrt P xs" and "x \<in> set xs" and "P (hd xs) (hd xs)"
  shows "P (hd xs) x"
  using assms by (cases xs) auto

lemma sample_season_2021:
  "filter_year sample_drivers 2021 =
     [drow 2021 22 ''HAM'' ''Lewis'' ''Hamilton'' 44 (775 / 2) 2,
      drow 2021 22 ''VER'' ''Max'' ''Verstappen'' 33 (791 / 2) 1,
      drow 2021 22 ''KUB'' ''Robert'' ''Kubica'' 88 0 20,
      drow 2021 22 ''MAZ'' ''Nikita'' ''Mazepin'' 9 0 21,
      drow 2021 21 ''VER'' ''Max'' ''Verstappen'' 33 (739 / 2) 1,
      drow 2021 21 ''HAM'' ''Lewis'' ''Hamilton'' 44 (739 / 2) 2]"
  by (simp add: filter_year_def sample_drivers_def drow_def)

lemma sample_rankings_2021:
  "get_season_rankings stable_sort_values (filter_year sample_drivers 2021) =
     [(1, drow 2021 22 ''VER'' ''Max'' ''Verstappen'' 33 (791 / 2) 1),
      (2, drow 2021 22 ''HAM'' ''Lewis'' ''Hamilton'' 44 (775 / 2) 2),
      (20, drow 2021 22 ''KUB'' ''Robert'' ''Kubica'' 88 0 20),
      (21, drow 2021 22 ''MAZ'' ''Nikita'' ''Mazepin'' 9 0 21)]"
  by (simp add: sample_season_2021 get_season_rankings_def series_max_def
      stable_sort_values_def set_index_position_def drow_def)

lemma get_season_rankings_rows:
  "map snd (get_season_rankings sv drivers) =
     sv points False (filter (\<lambda>r. Some (round_num r) = series_max (map round_num drivers)) drivers)"
  by (simp add: get_season_rankings_def map_snd_set_index_position)

text \<open>
  C10: for the empty table of driver rows \<^verbatim>\<open>get_season_rankings\<close> returns the empty
  rankings and raises nothing: the maximum of the empty column is a value that no row
  matches.
\<close>

theorem season_rankings_of_empty:
  "sort_values_ok sv \<Longrightarrow> get_season_rankings sv [] = []"
  by (simp add: get_season_rankings_def sort_values_Nil set_index_position_def)

theorem season_rankings_of_empty_witness:
  "sort_values_ok (stable_sort_values :: driver_row sort_values) \<and>
   get_season_rankings stable_sort_values [] = []"
  using season_rankings_of_empty [OF stable_sort_values_ok] stable_sort_values_ok
  by simp

text \<open>
  C3, as the code has it: for a table of driver rows that is not empty,
  \<^verbatim>\<open>get_season_rankings\<close> returns exactly the rows of the last round (each as often as the
  table has it), ordered by points descending, each keyed by its position. The first entry
  is a row with the most points of that round, under the key that the data gives that row:
  it is the row of position 1, under key 1, where the round has a row of position 1 with
  more points than every other row of the round.
\<close>

theorem season_rankings_last_round:
  assumes "sort_values_ok sv" and "drivers \<noteq> []"
  shows "mset (map snd (get_season_rankings sv drivers)) =
           mset (filter (\<lambda>r. round_num r = Max (round_num ` set drivers)) drivers)
       \<and> sorted_wrt (\<lambda>a b. points (snd b) \<le> points (snd a)) (get_season_rankings sv drivers)
       \<and> get_season_rankings sv drivers = map (\<lambda>r. (position r, r)) (map snd (get_season_rankings sv drivers))
       \<and> get_season_rankings sv drivers \<noteq> []
       \<and> (\<forall>r \<in> set drivers. round_num r = Max (round_num ` set drivers) \<longrightarrow>
             points r \<le> points (snd (hd (get_season_rankings sv drivers))))
       \<and> (\<forall>w \<in> set drivers.
             round_num w = Max (round_num ` set drivers) \<and> position w = 1 \<and>
             (\<forall>r \<in> set drivers. round_num r = Max (round_num ` set drivers) \<and> r \<noteq> w \<longrightarrow> points r < points w)
             \<longrightarrow> hd (get_season_rankings sv drivers) = (1, w))"
proof -
  define sel where "sel = filter (\<lambda>r. round_num r = Max (round_num ` set drivers)) drivers"
  define res where "res = sv points False sel"
  have rk: "get_season_rankings sv drivers = set_index_position res"
    by (simp add: get_season_rankings_def res_def sel_def last_round_filter [OF assms(2)])
  have rows: "map snd (get_season_rankings sv drivers) = res"
    by (simp add: rk map_snd_set_index_position)
  have ms: "mset res = mset sel"
    unfolding res_def by (rule sort_values_mset [OF assms(1)])
  have st: "set res = set sel"
    unfolding res_def by (rule sort_values_set [OF assms(1)])
  have srt: "sorted_wrt (\<lambda>a b. points b \<le> points a) res"
    unfolding res_def by (rule sort_values_descending [OF assms(1)])
  have "sel \<noteq> []"
    unfolding sel_def by (rule last_round_nonempty [OF assms(2)])
  with ms have ne: "res \<noteq> []" by auto
  have hd_rk: "hd (get_season_rankings sv drivers) = (position (hd res), hd res)"
    using ne by (simp add: rk set_index_position_def hd_map)
  have top: "points r \<le> points (hd res)" if "r \<in> set sel" for r
  proof -
    from that st have "r \<in> set res" by simp
    with srt show ?thesis by (rule sorted_wrt_hd) simp
  qed
  have c1: "mset (map snd (get_season_rankings sv drivers)) = mset sel"
    by (simp add: rows ms)
  have c2: "sorted_wrt (\<lambda>a b. points (snd b) \<le> points (snd a)) (get_season_rankings sv drivers)"
    using srt by (simp add: rk set_index_position_def sorted_wrt_map)
  have c3: "get_season_rankings sv drivers = map (\<lambda>r. (position r, r)) (map snd (get_season_rankings sv drivers))"
    by (simp add: rows) (simp add: rk set_index_position_def)
  have c4: "get_season_rankings sv drivers \<noteq> []"
    using ne by (simp add: rk set_index_position_def)
  have c5: "\<forall>r \<in> set drivers. round_num r = Max (round_num ` set drivers) \<longrightarrow>
      points r \<le> points (snd (hd (get_season_rankings sv drivers)))"
    using top by (simp add: hd_rk sel_def)
  have c6: "hd (get_season_rankings sv drivers) = (1, w)"
    if w: "w \<in> set drivers" "round_num w = Max (round_num ` set drivers)" "position w = 1"
      and lead: "\<forall>r \<in> set drivers. round_num r = Max (round_num ` set drivers) \<and> r \<noteq> w \<longrightarrow> points r < points w"
    for w
  proof -
    have "w \<in> set sel" using w by (simp add: sel_def)
    then have le: "points w \<le> points (hd res)" by (rule top)
    have "hd res \<in> set res" using ne by simp
    then have "hd res \<in> set sel" using st by simp
    then have "hd res \<in> set drivers" and "round_num (hd res) = Max (round_num ` set drivers)"
      by (simp_all add: sel_def)
    with lead le have "hd res = w" by force
    with w show ?thesis by (simp add: hd_rk)
  qed
  show ?thesis
    unfolding sel_def [symmetric]
    using c1 c2 c3 c4 c5 c6 unfolding sel_def [symmetric] by blast
qed

theorem season_rankings_last_round_witness:
  "sort_values_ok (stable_sort_values :: driver_row sort_values) \<and>
   filter_year sample_drivers 2021 \<noteq> [] \<and>
   Max (round_num ` set (filter_year sample_drivers 2021)) = 22 \<and>
   map fst (get_season_rankings stable_sort_values (filter_year sample_drivers 2021)) = [1, 2, 20, 21] \<and>
   map (code \<circ> snd) (get_season_rankings stable_sort_values (filter_year sample_drivers 2021)) =
     [''VER'', ''HAM'', ''KUB'', ''MAZ''] \<and>
   hd (get_season_rankings stable_sort_values (filter_year sample_drivers 2021)) =
     (1, drow 2021 22 ''VER'' ''Max'' ''Verstappen'' 33 (791 / 2) 1)"
proof -
  have ne: "filter_year sample_drivers 2021 \<noteq> []"
    by (simp add: sample_season_2021)
  have mx: "Max (round_num ` set (filter_year sample_drivers 2021)) = 22"
    by (simp add: sample_season_2021 drow_def)
  note inst = season_rankings_last_round [OF stable_sort_values_ok ne]
  from inst have "hd (get_season_rankings stable_sort_values (filter_year sample_drivers 2021)) =
     (1, drow 2021 22 ''VER'' ''Max'' ''Verstappen'' 33 (791 / 2) 1)"
    by (simp add: sample_rankings_2021)
  with ne mx show ?thesis
    using stable_sort_values_ok [where 'a = driver_row]
    by (simp add: sample_rankings_2021 drow_def)
qed

lemma sort_values_single:
  assumes "sort_values_ok sv"
  shows "sv key asc [r] = [r]"
proof -
  have "mset (sv key asc [r]) = mset [r]"
    by (rule sort_values_mset [OF assms])
  then show ?thesis by (cases "sv key asc [r]") (auto split: if_splits)
qed

lemma season_rankings_single:
  assumes "sort_values_ok sv"
  shows "get_season_rankings sv [r] = [(position r, r)]"
  by (simp add: get_season_rankings_def series_max_def sort_values_single [OF assms]
      set_index_position_def)

text \<open>
  The key of the winner is copied from the data. A table with one row has one arrangement,
  whatever the sort routine: the rankings of a last round whose only row has position 2
  show the winner under key 2.
\<close>

theorem season_rankings_key_from_data:
  "get_season_rankings stable_sort_values
     [drow 2021 22 ''HAM'' ''Lewis'' ''Hamilton'' 44 (775 / 2) 2] =
   [(2, drow 2021 22 ''HAM'' ''Lewis'' ''Hamilton'' 44 (775 / 2) 2)]"
  using season_rankings_single [OF stable_sort_values_ok,
      of "drow 2021 22 ''HAM'' ''Lewis'' ''Hamilton'' 44 (775 / 2) 2"]
  by (simp add: drow_def)

subsection \<open>Rankings of a circuit\<close>

lemma filter_find_None: "find P xs = None \<Longrightarrow> filter P xs = []"
  by (induction xs) (auto split: if_splits)

lemma filter_find_Some: "find P xs = Some c \<Longrightarrow> \<exists>rest. filter P xs = c # rest"
  by (induction xs) (auto split: if_splits)

lemma get_circuit_rankings_None:
  assumes "find (\<lambda>c. name c = selection) circuits = None"
  shows "get_circuit_rankings sv drivers circuits selection = Inl IndexError"
  by (simp add: get_circuit_rankings_def filter_find_None [OF assms])

lemma get_circuit_rankings_Some:
  assumes "find (\<lambda>c. name c = selection) circuits = Some c"
  shows "get_circuit_rankings sv drivers circuits selection =
    Inr (set_index_position (sv points False (filter (\<lambda>r. round_num r = round_num c) drivers)))"
proof -
  from filter_find_Some [OF assms] obtain rest
    where "filter (\<lambda>c. name c = selection) circuits = c # rest" ..
  then show ?thesis by (simp add: get_circuit_rankings_def)
qed

text \<open>
  C5, as the code has it: \<^verbatim>\<open>get_circuit_rankings\<close> takes the round of the first circuit row
  whose name is the selection and returns the driver rows of that round, ordered by points
  descending and keyed by position. When no circuit row has that name it fails with the
  \<open>IndexError\<close> of reading position 0 of an empty column.
\<close>

theorem circuit_rankings_first_match:
  assumes "sort_values_ok sv"
  shows "case find (\<lambda>c. name c = selection) circuits of
           None \<Rightarrow> get_circuit_rankings sv drivers circuits selection = Inl IndexError
         | Some c \<Rightarrow>
             (\<exists>rk. get_circuit_rankings sv drivers circuits selection = Inr rk \<and>
                mset (map snd rk) = mset (filter (\<lambda>r. round_num r = round_num c) drivers) \<and>
                sorted_wrt (\<lambda>a b. points (snd b) \<le> points (snd a)) rk \<and>
                rk = map (\<lambda>r. (position r, r)) (map snd rk))"
proof (cases "find (\<lambda>c. name c = selection) circuits")
  case None
  then show ?thesis by (simp add: get_circuit_rankings_None)
next
  case (Some c)
  define sel where "sel = filter (\<lambda>r. round_num r = round_num c) drivers"
  define rk where "rk = set_index_position (sv points False sel)"
  have r: "get_circuit_rankings sv drivers circuits selection = Inr rk"
    by (simp add: get_circuit_rankings_Some [OF Some] rk_def sel_def)
  have rows: "map snd rk = sv points False sel"
    by (simp add: rk_def map_snd_set_index_position)
  have m: "mset (map snd rk) = mset sel"
    by (simp add: rows sort_values_mset [OF assms])
  have s: "sorted_wrt (\<lambda>a b. points (snd b) \<le> points (snd a)) rk"
    using sort_values_descending [OF assms, of points sel]
    by (simp add: rk_def set_index_position_def sorted_wrt_map)
  have k: "rk = map (\<lambda>r. (position r, r)) (map snd rk)"
    by (simp add: rows) (simp add: rk_def set_index_position_def)
  from r m s k have "\<exists>rk. get_circuit_rankings sv drivers circuits selection = Inr rk \<and>
      mset (map snd rk) = mset sel \<and>
      sorted_wrt (\<lambda>a b. points (snd b) \<le> points (snd a)) rk \<and>
      rk = map (\<lambda>r. (position r, r)) (map snd rk)"
    by blast
  then show ?thesis by (simp add: Some sel_def)
qed

lemma sample_circuit_rankings:
  "get_circuit_rankings stable_sort_values (filter_year sample_drivers 2021)
     (filter_year sample_circuits 2021) ''Abu Dhabi Grand Prix'' =
   Inr [(1, drow 2021 22 ''VER'' ''Max'' ''Verstappen'' 33 (791 / 2) 1),
        (2, drow 2021 22 ''HAM'' ''Lewis'' ''Hamilton'' 44 (775 / 2) 2),
        (20, drow 2021 22 ''KUB'' ''Robert'' ''Kubica'' 88 0 20),
        (21, drow 2021 22 ''MAZ'' ''Nikita'' ''Mazepin'' 9 0 21)]"
  unfolding sample_season_2021
  by (simp add: get_circuit_rankings_def filter_year_def sample_circuits_def
      stable_sort_values_def set_index_position_def drow_def)

lemma sample_circuit_rankings_no_match:
  "get_circuit_rankings stable_sort_values (filter_year sample_drivers 2021)
     (filter_year sample_circuits 2021) ''Monaco Grand Prix'' = Inl IndexError"
  by (simp add: get_circuit_rankings_def filter_year_def sample_circuits_def)

theorem circuit_rankings_first_match_witness:
  "sort_values_ok (stable_sort_values :: driver_row sort_values) \<and>
   map round_num (filter_year sample_circuits 2021) = [22, 10] \<and>
   map_sum id (map fst)
     (get_circuit_rankings stable_sort_values (filter_year sample_drivers 2021)
        (filter_year sample_circuits 2021) ''Abu Dhabi Grand Prix'') = Inr [1, 2, 20, 21] \<and>
   get_circuit_rankings stable_sort_values (filter_year sample_drivers 2021)
     (filter_year sample_circuits 2021) ''Monaco Grand Prix'' = Inl IndexError"
proof -
  note hit = circuit_rankings_first_match [OF stable_sort_values_ok,
      where selection = "''Abu Dhabi Grand Prix''" and circuits = "filter_year sample_circuits 2021"
        and drivers = "filter_year sample_drivers 2021"]
  note miss = circuit_rankings_first_match [OF stable_sort_values_ok,
      where selection = "''Monaco Grand Prix''" and circuits = "filter_year sample_circuits 2021"
        and drivers = "filter_year sample_drivers 2021"]
  from miss have "get_circuit_rankings stable_sort_values (filter_year sample_drivers 2021)
     (filter_year sample_circuits 2021) ''Monaco Grand Prix'' = Inl IndexError"
    by (simp add: filter_year_def sample_circuits_def)
  then show ?thesis
    using hit stable_sort_values_ok [where 'a = driver_row]
    unfolding sample_circuit_rankings
    by (simp add: filter_year_def sample_circuits_def)
qed

text \<open>The error for a name that no circuit has is not the \<open>NotFound\<close> of the specification.\<close>

theorem circuit_rankings_not_NotFound:
  "get_circuit_rankings stable_sort_values sample_drivers sample_circuits ''Monaco Grand Prix''
     \<noteq> Inl NotFound"
  by (simp add: get_circuit_rankings_def sample_circuits_def)

subsection \<open>A year without rows\<close>

lemma filter_year_no_rows: "\<forall>r \<in> set data. year r \<noteq> y \<Longrightarrow> filter_year data y = []"
  by (simp add: filter_year_def filter_empty_conv)

lemma get_season_rankings_Nil: "sort_values_ok sv \<Longrightarrow> get_season_rankings sv [] = []"
  by (simp add: get_season_rankings_def sort_values_Nil set_index_position_def)

lemma app_raises:
  assumes "show_winner_text (get_season_rankings svd (filter_year drivers y)) = Inl e"
  shows "app svc svd circuits drivers y = Inl e"
  using assms by (simp add: app_def Let_def)

lemma show_driver_progression_Nil:
  "sort_values_ok sv \<Longrightarrow> show_driver_progression sv [] order = ([], [])"
  by (simp add: show_driver_progression_def sort_values_Nil px_line_def legend_codes_def)

lemma show_driver_points_Nil: "show_driver_points [] = (\<lparr>bars = [], annotations = []\<rparr>, [])"
  by (simp add: show_driver_points_def px_bar_def)

text \<open>
  C2, as the code has it: for a year that no row of the loaded tables has, \<^verbatim>\<open>filter_year\<close>
  returns the empty table and \<^verbatim>\<open>get_season_rankings\<close> the empty rankings; the chart builders
  accept an empty table and return an empty chart. The winner banner raises \<open>IndexError\<close> on
  the empty rankings, which ends the run of the page before a chart is built.
\<close>

theorem year_without_rows:
  assumes "sort_values_ok svd" and "\<forall>r \<in> set drivers. year r \<noteq> y"
  shows "filter_year drivers y = []
       \<and> get_season_rankings svd (filter_year drivers y) = []
       \<and> show_world_map [] = []
       \<and> show_driver_progression svd [] [] = ([], [])
       \<and> show_driver_points [] = (\<lparr>bars = [], annotations = []\<rparr>, [])
       \<and> show_winner_text (get_season_rankings svd (filter_year drivers y)) = Inl IndexError
       \<and> app svc svd circuits drivers y = Inl IndexError"
proof -
  have f: "filter_year drivers y = []"
    by (rule filter_year_no_rows [OF assms(2)])
  have r: "get_season_rankings svd (filter_year drivers y) = []"
    by (simp add: f get_season_rankings_Nil [OF assms(1)])
  have w: "show_winner_text (get_season_rankings svd (filter_year drivers y)) = Inl IndexError"
    by (simp add: r show_winner_text_Nil)
  have a: "app svc svd circuits drivers y = Inl IndexError"
    by (rule app_raises [OF w])
  have m: "show_world_map [] = []"
    by (simp add: show_world_map_def)
  show ?thesis
    using f r m show_driver_progression_Nil [OF assms(1)] show_driver_points_Nil w a
    by simp
qed

theorem year_without_rows_witness:
  "sort_values_ok (stable_sort_values :: driver_row sort_values) \<and>
   filter_year sample_drivers 2024 = [] \<and>
   get_season_rankings stable_sort_values (filter_year sample_drivers 2024) = [] \<and>
   app stable_sort_values stable_sort_values sample_circuits sample_drivers 2024 = Inl IndexError"
proof -
  have no: "\<forall>r \<in> set sample_drivers. year r \<noteq> 2024"
    by (simp add: sample_drivers_def drow_def)
  from year_without_rows [OF stable_sort_values_ok no, of stable_sort_values sample_circuits]
  show ?thesis
    using stable_sort_values_ok [where 'a = driver_row]
    by (simp add: get_season_rankings_Nil)
qed

text \<open>
  The page for 1949, a year before the first row of the sample tables: the run ends with
  the error of the winner banner.
\<close>

theorem page_raises_for_year_without_rows:
  "filter_year sample_drivers 1949 = [] \<and>
   app stable_sort_values stable_sort_values sample_circuits sample_drivers 1949 = Inl IndexError"
proof -
  have f: "filter_year sample_drivers 1949 = []"
    by (simp add: filter_year_def sample_drivers_def drow_def)
  have "get_season_rankings stable_sort_values (filter_year sample_drivers 1949) = []"
    by (simp add: f get_season_rankings_Nil [OF stable_sort_values_ok])
  then have "show_winner_text (get_season_rankings stable_sort_values (filter_year sample_drivers 1949))
      = Inl IndexError"
    by (simp add: show_winner_text_Nil)
  then have "app stable_sort_values stable_sort_values sample_circuits sample_drivers 1949
      = Inl IndexError"
    by (rule app_raises)
  with f show ?thesis by simp
qed

subsection \<open>The year selector\<close>

text \<open>
  C9: the select box offers exactly the years 1950 to 2023, each once, in descending order,
  and shows 2023 until the user picks another year.
\<close>

theorem year_selector:
  "year_options = rev [1950..2023]
   \<and> set year_options = {1950..2023}
   \<and> distinct year_options
   \<and> sorted_wrt (\<lambda>a b. b < a) year_options
   \<and> length year_options = 74
   \<and> selectbox_initial year_options 0 = Inr 2023"
proof -
  have opts: "year_options = rev [1950..2023]"
    by (simp only: year_options_def START_YEAR_def END_YEAR_def)
  have s: "set year_options = {1950..2023}"
    by (simp only: opts set_rev set_upto)
  have d: "distinct year_options"
    by (simp only: opts distinct_rev distinct_upto)
  have "sorted_wrt (\<lambda>a b. a < b) [1950..2023::int]"
    by (rule sorted_wrt_upto)
  then have o: "sorted_wrt (\<lambda>a b. b < a) year_options"
    by (simp only: opts sorted_wrt_rev)
  have "length year_options = nat (2023 - 1950 + 1)"
    by (simp only: opts length_rev length_upto)
  then have l: "length year_options = 74"
    by simp
  have split: "[1950..2023::int] = [1950..2023 - 1] @ [2023]"
    by (rule upto_rec2) simp
  then have lst: "last [1950..2023::int] = 2023"
    by (simp only: last_snoc)
  have ne: "rev [1950..2023::int] \<noteq> []"
    using split by (simp only: rev_is_Nil_conv) (metis snoc_eq_iff_butlast)
  have "rev [1950..2023::int] ! 0 = hd (rev [1950..2023])"
    by (rule hd_conv_nth [OF ne, symmetric])
  also have "\<dots> = last [1950..2023]"
    by (rule hd_rev)
  finally have "year_options ! 0 = 2023"
    by (simp only: opts lst)
  then have i: "selectbox_initial year_options 0 = Inr 2023"
    using l by (simp add: selectbox_initial_def)
  from opts s d o l i show ?thesis by blast
qed

subsection \<open>Driver progression\<close>

lemma set_unique: "set (unique xs) = set xs"
  by (induction xs rule: unique.induct) auto

lemma distinct_unique: "distinct (unique xs)"
  by (induction xs rule: unique.induct) (auto simp: set_unique)

lemma filter_unique: "filter P (unique xs) = unique (filter P xs)"
proof (induction xs rule: unique.induct)
  case 1
  show ?case by simp
next
  case (2 x xs)
  have a: "filter P (removeAll x xs) = removeAll x (filter P xs)"
    by (simp add: removeAll_filter_not_eq conj_commute)
  have b: "\<not> P x \<Longrightarrow> removeAll x (filter P xs) = filter P xs"
    by (simp add: removeAll_id)
  show ?case
    using "2.IH" a b by (cases "P x") simp_all
qed

lemma unique_append:
  "unique (xs @ ys) = unique xs @ filter (\<lambda>y. y \<notin> set xs) (unique ys)"
proof (induction xs arbitrary: ys rule: unique.induct)
  case 1
  show ?case by simp
next
  case (2 x xs)
  have "unique ((x # xs) @ ys) = x # unique (removeAll x xs @ removeAll x ys)"
    by simp
  also have "\<dots> = x # unique (removeAll x xs) @
      filter (\<lambda>y. y \<notin> set (removeAll x xs)) (unique (removeAll x ys))"
    by (simp only: "2.IH")
  also have "filter (\<lambda>y. y \<notin> set (removeAll x xs)) (unique (removeAll x ys)) =
      filter (\<lambda>y. y \<notin> set (x # xs)) (unique ys)"
  proof -
    have "unique (removeAll x ys) = filter (\<lambda>y. x \<noteq> y) (unique ys)"
      by (simp only: removeAll_filter_not_eq filter_unique [symmetric])
    then have "filter (\<lambda>y. y \<notin> set (removeAll x xs)) (unique (removeAll x ys)) =
        filter (\<lambda>y. x \<noteq> y \<and> y \<notin> set (removeAll x xs)) (unique ys)"
      by (simp only: filter_filter)
    also have "\<dots> = filter (\<lambda>y. y \<notin> set (x # xs)) (unique ys)"
      by (rule filter_cong) auto
    finally show ?thesis .
  qed
  finally show ?case by simp
qed

lemma trace_code_line_of: "trace_code (line_of df c) = c"
  by (simp add: line_of_def Let_def)

lemma map_trace_code_px_line: "map trace_code (px_line df order) = legend_codes order df"
  by (simp add: px_line_def comp_def trace_code_line_of)

lemma legend_codes_split:
  "legend_codes order df =
     filter (\<lambda>c. c \<in> code ` set df) (unique order) @
     filter (\<lambda>c. c \<notin> set order) (unique (map code df))"
proof -
  have "filter (\<lambda>c. c \<in> set (map code df)) (filter (\<lambda>y. y \<notin> set order) (unique (map code df)))
      = filter (\<lambda>y. y \<notin> set order) (unique (map code df))"
    by (simp only: filter_filter) (rule filter_cong, simp_all add: set_unique)
  then show ?thesis
    by (simp add: legend_codes_def unique_append)
qed

lemma distinct_legend_codes: "distinct (legend_codes order df)"
  by (simp add: legend_codes_def distinct_unique)

lemma set_legend_codes: "set (legend_codes order df) = code ` set df"
  by (auto simp: legend_codes_def set_unique)

lemma line_of_named:
  "line_of (map (\<lambda>r. r\<lparr>driver_name := Some (forename r @ '' '' @ surname r)\<rparr>) df) c =
     \<lparr>trace_code = c,
      trace_x = map round_num (filter (\<lambda>r. code r = c) df),
      trace_y = map points (filter (\<lambda>r. code r = c) df),
      trace_hover = map (\<lambda>r. Some (forename r @ '' '' @ surname r)) (filter (\<lambda>r. code r = c) df)\<rparr>"
  by (simp add: line_of_def Let_def filter_map comp_def)

lemma show_driver_progression_chart:
  "fst (show_driver_progression sv drivers order) =
     px_line (map (\<lambda>r. r\<lparr>driver_name := Some (forename r @ '' '' @ surname r)\<rparr>)
                (sv (\<lambda>r. of_int (round_num r)) True drivers)) order"
  by (simp add: show_driver_progression_def Let_def)

lemma code_named:
  "map code (map (\<lambda>r. r\<lparr>driver_name := Some (forename r @ '' '' @ surname r)\<rparr>) df) = map code df"
  by simp

lemma legend_codes_named:
  "legend_codes order (map (\<lambda>r. r\<lparr>driver_name := Some (forename r @ '' '' @ surname r)\<rparr>) df)
     = legend_codes order df"
  unfolding legend_codes_def code_named ..

lemma sorted_rounds_of_code:
  assumes "sort_values_ok sv"
  shows "sorted (map round_num (filter P (sv (\<lambda>r. of_int (round_num r)) True drivers)))"
proof -
  have "sorted_wrt (\<lambda>a b. (of_int (round_num a) :: rat) \<le> of_int (round_num b))
      (sv (\<lambda>r. of_int (round_num r)) True drivers)"
    by (rule sort_values_ascending [OF assms])
  then have "sorted_wrt (\<lambda>a b. round_num a \<le> round_num b) (sv (\<lambda>r. of_int (round_num r)) True drivers)"
    by (simp only: of_int_le_iff)
  then have "sorted_wrt (\<lambda>a b. round_num a \<le> round_num b)
      (filter P (sv (\<lambda>r. of_int (round_num r)) True drivers))"
    by (rule sorted_wrt_filter)
  then show ?thesis by (simp only: sorted_map)
qed

lemma zip_columns: "zip (map f xs) (map g xs) = map (\<lambda>r. (f r, g r)) xs"
  by (induction xs) simp_all

lemma sample_progression:
  "fst (show_driver_progression stable_sort_values (filter_year sample_drivers 2021)
          [''VER'', ''HAM'', ''KUB'', ''MAZ'']) =
     [\<lparr>trace_code = ''VER'', trace_x = [21, 22], trace_y = [739 / 2, 791 / 2],
       trace_hover = [Some ''Max Verstappen'', Some ''Max Verstappen'']\<rparr>,
      \<lparr>trace_code = ''HAM'', trace_x = [21, 22], trace_y = [739 / 2, 775 / 2],
       trace_hover = [Some ''Lewis Hamilton'', Some ''Lewis Hamilton'']\<rparr>,
      \<lparr>trace_code = ''KUB'', trace_x = [22], trace_y = [0],
       trace_hover = [Some ''Robert Kubica'']\<rparr>,
      \<lparr>trace_code = ''MAZ'', trace_x = [22], trace_y = [0],
       trace_hover = [Some ''Nikita Mazepin'']\<rparr>]"
  unfolding sample_season_2021
  by (simp add: show_driver_progression_def stable_sort_values_def px_line_def legend_codes_def
      line_of_def drow_def Let_def)

text \<open>
  C6, as the code has it: the chart has one line for each driver code of the table, in the
  order of the given codes, with the codes that the order does not list after them. The
  line of a code has one point for each row of that code, in ascending round order: x is
  the round of the row and y the points stored in the row. The code adds nothing up.
\<close>

theorem driver_progression_lines:
  assumes "sort_values_ok sv"
  shows "map trace_code (fst (show_driver_progression sv drivers order)) =
           filter (\<lambda>c. c \<in> code ` set drivers) (unique order) @
           filter (\<lambda>c. c \<notin> set order)
             (unique (map code (sv (\<lambda>r. of_int (round_num r)) True drivers)))
       \<and> distinct (map trace_code (fst (show_driver_progression sv drivers order)))
       \<and> set (map trace_code (fst (show_driver_progression sv drivers order))) = code ` set drivers
       \<and> (\<forall>t \<in> set (fst (show_driver_progression sv drivers order)).
             sorted (trace_x t) \<and>
             mset (zip (trace_x t) (trace_y t)) =
               mset (map (\<lambda>r. (round_num r, points r))
                      (filter (\<lambda>r. code r = trace_code t) drivers)))"
proof -
  define srt where "srt = sv (\<lambda>r. of_int (round_num r)) True drivers"
  define named where
    "named = map (\<lambda>r. r\<lparr>driver_name := Some (forename r @ '' '' @ surname r)\<rparr>) srt"
  have chart: "fst (show_driver_progression sv drivers order) = px_line named order"
    by (simp add: show_driver_progression_chart named_def srt_def)
  have st: "set srt = set drivers"
    unfolding srt_def by (rule sort_values_set [OF assms])
  have ms: "mset srt = mset drivers"
    unfolding srt_def by (rule sort_values_mset [OF assms])
  have lc: "legend_codes order named = legend_codes order srt"
    unfolding named_def by (rule legend_codes_named)
  have codes: "map trace_code (px_line named order) = legend_codes order srt"
    by (simp only: map_trace_code_px_line lc)
  have c1: "map trace_code (px_line named order) =
      filter (\<lambda>c. c \<in> code ` set drivers) (unique order) @
      filter (\<lambda>c. c \<notin> set order) (unique (map code srt))"
    by (simp only: codes legend_codes_split st)
  have c2: "distinct (map trace_code (px_line named order))"
    by (simp only: codes distinct_legend_codes)
  have c3: "set (map trace_code (px_line named order)) = code ` set drivers"
    by (simp only: codes set_legend_codes st)
  have c4: "sorted (trace_x t) \<and>
      mset (zip (trace_x t) (trace_y t)) =
        mset (map (\<lambda>r. (round_num r, points r)) (filter (\<lambda>r. code r = trace_code t) drivers))"
    if "t \<in> set (px_line named order)" for t
  proof -
    from that obtain c where t: "t = line_of named c"
      by (auto simp: px_line_def)
    have x: "trace_x t = map round_num (filter (\<lambda>r. code r = c) srt)"
      and y: "trace_y t = map points (filter (\<lambda>r. code r = c) srt)"
      and k: "trace_code t = c"
      unfolding t named_def line_of_named by simp_all
    have "sorted (map round_num (filter (\<lambda>r. code r = c) srt))"
      unfolding srt_def by (rule sorted_rounds_of_code [OF assms])
    then have s: "sorted (trace_x t)" by (simp only: x)
    have "mset (zip (trace_x t) (trace_y t)) =
        image_mset (\<lambda>r. (round_num r, points r)) (filter_mset (\<lambda>r. code r = c) (mset srt))"
      by (simp add: x y zip_columns)
    also have "\<dots> = mset (map (\<lambda>r. (round_num r, points r)) (filter (\<lambda>r. code r = c) drivers))"
      by (simp add: ms)
    finally show ?thesis using s by (simp add: k)
  qed
  show ?thesis
    unfolding chart using c1 c2 c3 c4 unfolding srt_def by blast
qed

theorem driver_progression_lines_witness:
  "sort_values_ok (stable_sort_values :: driver_row sort_values) \<and>
   map trace_code (fst (show_driver_progression stable_sort_values (filter_year sample_drivers 2021)
     [''VER'', ''HAM'', ''KUB'', ''MAZ''])) = [''VER'', ''HAM'', ''KUB'', ''MAZ''] \<and>
   map trace_x (fst (show_driver_progression stable_sort_values (filter_year sample_drivers 2021)
     [''VER'', ''HAM'', ''KUB'', ''MAZ''])) = [[21, 22], [21, 22], [22], [22]] \<and>
   map trace_y (fst (show_driver_progression stable_sort_values (filter_year sample_drivers 2021)
     [''VER'', ''HAM'', ''KUB'', ''MAZ''])) = [[739 / 2, 791 / 2], [739 / 2, 775 / 2], [0], [0]]"
  using driver_progression_lines [OF stable_sort_values_ok,
      of "filter_year sample_drivers 2021" "[''VER'', ''HAM'', ''KUB'', ''MAZ'']"]
    stable_sort_values_ok [where 'a = driver_row]
  unfolding sample_progression
  by simp

text \<open>
  The line of Verstappen in the sample season shows the two stored values; their running
  sum is another list.
\<close>

theorem driver_progression_not_running_sum:
  "trace_code (hd (fst (show_driver_progression stable_sort_values (filter_year sample_drivers 2021)
     [''VER'', ''HAM'', ''KUB'', ''MAZ'']))) = ''VER'' \<and>
   trace_y (hd (fst (show_driver_progression stable_sort_values (filter_year sample_drivers 2021)
     [''VER'', ''HAM'', ''KUB'', ''MAZ'']))) = [739 / 2, 791 / 2] \<and>
   cumulative_points stable_sort_values (filter_year sample_drivers 2021) ''VER'' = [739 / 2, 765]"
  unfolding sample_progression
  by (simp add: sample_season_2021 cumulative_points_def stable_sort_values_def drow_def)

subsection \<open>What the calls do to the tables\<close>

lemma show_driver_progression_table:
  "snd (show_driver_progression sv drivers order) =
     map (\<lambda>r. r\<lparr>driver_name := Some (forename r @ '' '' @ surname r)\<rparr>)
       (sv (\<lambda>r. of_int (round_num r)) True drivers)"
  by (simp add: show_driver_progression_def Let_def)

lemma show_driver_points_table:
  "snd (show_driver_points rankings) =
     map (\<lambda>(i, r). (i, r\<lparr>driver_name :=
                            Some (str_int i @ ''. '' @ forename r @ '' '' @ surname r)\<rparr>)) rankings"
  by (simp add: show_driver_points_def Let_def)

lemma app_Inr:
  assumes "show_winner_text (get_season_rankings svd (filter_year drivers y)) = Inr b"
  shows "\<exists>pg tb. app svc svd circuits drivers y = Inr (pg, tb) \<and>
      loaded_circuits tb = circuits \<and> loaded_drivers tb = drivers \<and>
      filtered_circuits tb = filter_year circuits y \<and>
      filtered_drivers tb =
        snd (show_driver_progression svd (filter_year drivers y)
               (map (\<lambda>(i, r). code r) (get_season_rankings svd (filter_year drivers y)))) \<and>
      season_rankings tb = snd (show_driver_points (get_season_rankings svd (filter_year drivers y)))"
  using assms by (simp add: app_def Let_def)

lemma app_tables:
  assumes "app svc svd circuits drivers y = Inr (pg, tb)"
  shows "loaded_circuits tb = circuits \<and> loaded_drivers tb = drivers \<and>
      filtered_circuits tb = filter_year circuits y"
proof (cases "show_winner_text (get_season_rankings svd (filter_year drivers y))")
  case (Inl e)
  then have "app svc svd circuits drivers y = Inl e" by (rule app_raises)
  with assms show ?thesis by simp
next
  case (Inr b)
  from app_Inr [OF Inr, of svc circuits] assms show ?thesis by auto
qed

lemma sample_progression_table:
  "map round_num (snd (show_driver_progression stable_sort_values (filter_year sample_drivers 2021)
      [''VER'', ''HAM'', ''KUB'', ''MAZ''])) = [21, 21, 22, 22, 22, 22]
   \<and> map driver_name (snd (show_driver_progression stable_sort_values (filter_year sample_drivers 2021)
      [''VER'', ''HAM'', ''KUB'', ''MAZ''])) =
     [Some ''Max Verstappen'', Some ''Lewis Hamilton'', Some ''Lewis Hamilton'',
      Some ''Max Verstappen'', Some ''Robert Kubica'', Some ''Nikita Mazepin'']"
  unfolding sample_season_2021
  by (simp add: show_driver_progression_def stable_sort_values_def drow_def Let_def)

text \<open>
  C8, as the code has it: a run of the page leaves the loaded tables as they were, and the
  table of circuits that the world map is built from as the filter made it. The two
  builders of the driver charts change the table they are given.
  \<^verbatim>\<open>show_driver_progression\<close> leaves it sorted by round with the column \<^verbatim>\<open>name\<close> assigned, and
  the same rows otherwise; \<^verbatim>\<open>show_driver_points\<close> leaves it with the column \<^verbatim>\<open>name\<close>
  assigned, and the same rows in the same order otherwise.
\<close>

theorem tables_after_the_calls:
  assumes "sort_values_ok sv"
  shows "(app svc sv circuits drivers y = Inr (pg, tb) \<longrightarrow>
            loaded_circuits tb = circuits \<and> loaded_drivers tb = drivers \<and>
            filtered_circuits tb = filter_year circuits y)
       \<and> sorted (map round_num (snd (show_driver_progression sv table order)))
       \<and> mset (map (\<lambda>r. r\<lparr>driver_name := None\<rparr>) (snd (show_driver_progression sv table order))) =
           mset (map (\<lambda>r. r\<lparr>driver_name := None\<rparr>) table)
       \<and> (\<forall>r \<in> set (snd (show_driver_progression sv table order)).
             driver_name r = Some (forename r @ '' '' @ surname r))
       \<and> map (\<lambda>(i, r). (i, r\<lparr>driver_name := None\<rparr>)) (snd (show_driver_points rankings)) =
           map (\<lambda>(i, r). (i, r\<lparr>driver_name := None\<rparr>)) rankings
       \<and> (\<forall>(i, r) \<in> set (snd (show_driver_points rankings)).
             driver_name r = Some (str_int i @ ''. '' @ forename r @ '' '' @ surname r))"
proof -
  define srt where "srt = sv (\<lambda>r. of_int (round_num r)) True table"
  have tbl: "snd (show_driver_progression sv table order) =
      map (\<lambda>r. r\<lparr>driver_name := Some (forename r @ '' '' @ surname r)\<rparr>) srt"
    unfolding srt_def by (rule show_driver_progression_table)
  have "sorted (map round_num (filter (\<lambda>r. True) srt))"
    unfolding srt_def by (rule sorted_rounds_of_code [OF assms])
  then have c2: "sorted (map round_num (snd (show_driver_progression sv table order)))"
    by (simp add: tbl comp_def)
  have "mset srt = mset table"
    unfolding srt_def by (rule sort_values_mset [OF assms])
  then have "image_mset (\<lambda>r. r\<lparr>driver_name := None\<rparr>) (mset srt) =
      image_mset (\<lambda>r. r\<lparr>driver_name := None\<rparr>) (mset table)"
    by simp
  then have c3: "mset (map (\<lambda>r. r\<lparr>driver_name := None\<rparr>) (snd (show_driver_progression sv table order))) =
      mset (map (\<lambda>r. r\<lparr>driver_name := None\<rparr>) table)"
    by (simp add: tbl comp_def multiset.map_comp)
  have c4: "\<forall>r \<in> set (snd (show_driver_progression sv table order)).
      driver_name r = Some (forename r @ '' '' @ surname r)"
    by (auto simp: tbl)
  have c5: "map (\<lambda>(i, r). (i, r\<lparr>driver_name := None\<rparr>)) (snd (show_driver_points rankings)) =
      map (\<lambda>(i, r). (i, r\<lparr>driver_name := None\<rparr>)) rankings"
    by (simp add: show_driver_points_table comp_def case_prod_unfold)
  have c6: "\<forall>(i, r) \<in> set (snd (show_driver_points rankings)).
      driver_name r = Some (str_int i @ ''. '' @ forename r @ '' '' @ surname r)"
    by (auto simp: show_driver_points_table)
  have c1: "app svc sv circuits drivers y = Inr (pg, tb) \<longrightarrow>
      loaded_circuits tb = circuits \<and> loaded_drivers tb = drivers \<and>
      filtered_circuits tb = filter_year circuits y"
    using app_tables by blast
  from c1 c2 c3 c4 c5 c6 show ?thesis by blast
qed

lemma sample_app_2021:
  "\<exists>pg tb. app stable_sort_values stable_sort_values sample_circuits sample_drivers 2021 = Inr (pg, tb)"
proof -
  have "show_winner_text (get_season_rankings stable_sort_values (filter_year sample_drivers 2021)) =
      Inr (winner_text (winner_name (drow 2021 22 ''VER'' ''Max'' ''Verstappen'' 33 (791 / 2) 1))
             (winner_number (drow 2021 22 ''VER'' ''Max'' ''Verstappen'' 33 (791 / 2) 1)))"
    unfolding sample_rankings_2021 by (rule show_winner_text_Cons)
  from app_Inr [OF this] show ?thesis by blast
qed

theorem tables_after_the_calls_witness:
  "sort_values_ok (stable_sort_values :: driver_row sort_values) \<and>
   map_sum id (\<lambda>(pg, tb). (loaded_circuits tb, loaded_drivers tb, filtered_circuits tb))
     (app stable_sort_values stable_sort_values sample_circuits sample_drivers 2021) =
     Inr (sample_circuits, sample_drivers, filter_year sample_circuits 2021) \<and>
   map round_num (snd (show_driver_progression stable_sort_values (filter_year sample_drivers 2021)
      [''VER'', ''HAM'', ''KUB'', ''MAZ''])) = [21, 21, 22, 22, 22, 22]"
proof -
  from sample_app_2021 obtain pg tb
    where r: "app stable_sort_values stable_sort_values sample_circuits sample_drivers 2021 = Inr (pg, tb)"
    by blast
  from tables_after_the_calls [OF stable_sort_values_ok,
      where svc = stable_sort_values and circuits = sample_circuits and drivers = sample_drivers
        and y = 2021 and pg = pg and tb = tb] r
  have "loaded_circuits tb = sample_circuits \<and> loaded_drivers tb = sample_drivers \<and>
      filtered_circuits tb = filter_year sample_circuits 2021"
    by blast
  then show ?thesis
    using stable_sort_values_ok [where 'a = driver_row] sample_progression_table
    by (simp add: r)
qed

text \<open>
  The table of the sample season before and after \<^verbatim>\<open>show_driver_progression\<close>: the rows
  have moved and the column \<^verbatim>\<open>name\<close> is there.
\<close>

theorem driver_progression_changes_its_table:
  "map round_num (filter_year sample_drivers 2021) = [22, 22, 22, 22, 21, 21] \<and>
   map round_num (snd (show_driver_progression stable_sort_values (filter_year sample_drivers 2021)
      [''VER'', ''HAM'', ''KUB'', ''MAZ''])) = [21, 21, 22, 22, 22, 22] \<and>
   snd (show_driver_progression stable_sort_values (filter_year sample_drivers 2021)
      [''VER'', ''HAM'', ''KUB'', ''MAZ'']) \<noteq> filter_year sample_drivers 2021"
proof -
  have a: "map round_num (filter_year sample_drivers 2021) = [22, 22, 22, 22, 21, 21]"
    by (simp add: sample_season_2021 drow_def)
  have b: "map round_num (snd (show_driver_progression stable_sort_values (filter_year sample_drivers 2021)
      [''VER'', ''HAM'', ''KUB'', ''MAZ''])) = [21, 21, 22, 22, 22, 22]"
    using sample_progression_table by blast
  from a b have "map round_num (snd (show_driver_progression stable_sort_values
      (filter_year sample_drivers 2021) [''VER'', ''HAM'', ''KUB'', ''MAZ''])) \<noteq>
      map round_num (filter_year sample_drivers 2021)"
    by simp
  then have "snd (show_driver_progression stable_sort_values (filter_year sample_drivers 2021)
      [''VER'', ''HAM'', ''KUB'', ''MAZ'']) \<noteq> filter_year sample_drivers 2021"
    by auto
  with a b show ?thesis by blast
qed

subsection \<open>Driver points\<close>
















end
